theory Spec2Isabelle
  imports Complex_Main "HOL-Library.Word" "HOL-Library.Log_Nat"
begin

section \<open>Script payloads (script\_output.hpp)\<close>

text \<open>
  \<^verbatim>\<open>ScriptOutput<type>\<close> couples the payload \<^verbatim>\<open>ScriptData<type>\<close> of one script
  occurrence with the numeric id and the flag that \<^verbatim>\<open>resolve\<close> and \<^verbatim>\<open>check\<close> assign.
  The template is a record over the payload type.
\<close>

record 'd ScriptOutput =
  data :: 'd
  scriptNum :: "32 word"
  isNew :: bool

text \<open>\<^verbatim>\<open>ScriptData<PUBKEY>\<close>: the public key, as its bytes.\<close>

record PubkeyData =
  pubkey :: "8 word list"

text \<open>
  \<^verbatim>\<open>ScriptData<MULTISIG>\<close>: \<^verbatim>\<open>uint8_t numRequired, numTotal; uint16_t addressCount\<close> and
  the member outputs, each a \<^verbatim>\<open>ScriptOutput<PUBKEY>\<close>.
\<close>

record MultisigData =
  numRequired :: "8 word"
  numTotal :: "8 word"
  addressCount :: "16 word"
  addresses :: "PubkeyData ScriptOutput list"

text \<open>
  \<^verbatim>\<open>return numRequired <= numTotal && numTotal == addressCount;\<close>
  Both comparisons are made after the integral promotion to \<^verbatim>\<open>int\<close>, that is on the
  values of the fields.
\<close>

definition isValid :: "MultisigData \<Rightarrow> bool" where
  "isValid d = (unat (numRequired d) \<le> unat (numTotal d) \<and> unat (numTotal d) = unat (addressCount d))"

section \<open>Address kinds and the address state\<close>

text \<open>The address kinds \<^verbatim>\<open>blocksci::AddressType::Enum\<close> that \<^verbatim>\<open>ScriptData\<close> is specialised for.\<close>

datatype AddressType =
  PUBKEY | PUBKEYHASH | WITNESS_PUBKEYHASH | SCRIPTHASH | WITNESS_SCRIPTHASH
  | MULTISIG | NONSTANDARD | NULL_DATA

type_synonym ScriptType = AddressType

type_synonym uint160 = "160 word"

text \<open>
  Modelled from the spec: \<^verbatim>\<open>blocksci::scriptType\<close> and \<^verbatim>\<open>ScriptInfo<script>::deduped\<close>
  (script\_info.hpp and address\_info.hpp are not among the sources). The spec keys both the
  dedup table and the id counters by the address kind itself, says that public keys and
  hashed public keys are deduped and that a multisig script is not. The two kinds whose
  \<^verbatim>\<open>ScriptData\<close> declares no \<^verbatim>\<open>getHash\<close> (non-standard, null data) cannot take the deduped
  branch of \<^verbatim>\<open>ScriptOutput::resolve\<close>.
\<close>

definition scriptType :: "AddressType \<Rightarrow> ScriptType" where
  "scriptType t = t"

text \<open>
  Modelled from the spec: \<^verbatim>\<open>ScriptInfo<script>::deduped\<close>, the "compile-time deduped trait
  per kind", as described above.
\<close>

fun deduped :: "ScriptType \<Rightarrow> bool" where
  "deduped PUBKEY = True"
| "deduped PUBKEYHASH = True"
| "deduped WITNESS_PUBKEYHASH = True"
| "deduped SCRIPTHASH = True"
| "deduped WITNESS_SCRIPTHASH = True"
| "deduped MULTISIG = False"
| "deduped NONSTANDARD = False"
| "deduped NULL_DATA = False"

text \<open>\<^verbatim>\<open>blocksci::RawScript{hash, type}\<close>, the dedup key.\<close>

record RawScript =
  rawHash :: uint160
  rawType :: ScriptType

text \<open>
  Modelled from the spec: \<^verbatim>\<open>AddressState\<close> (address\_state.hpp is not among the sources),
  "the mutable dictionary mapping RawScript to canonical numeric identity, plus per-kind id
  allocation counters". A fresh state has an empty dictionary and hands out 1 as the first
  id of every kind (the spec's dedup scenario).
\<close>

record AddressState =
  addressMap :: "RawScript \<rightharpoonup> 32 word"
  scriptIndexes :: "ScriptType \<Rightarrow> 32 word"

text \<open>
  Modelled from the spec: the fresh AddressState of the dedup scenario, in which the first
  id handed out is 1.
\<close>

definition emptyAddressState :: AddressState where
  "emptyAddressState = \<lparr>addressMap = Map.empty, scriptIndexes = (\<lambda>_. 1)\<rparr>"

text \<open>
  Modelled from the spec: the result of a lookup, \<^verbatim>\<open>AddressLookupResult{id, found}\<close>; it
  carries the key it was looked up with, which the insertion on a miss needs.
  \<^verbatim>\<open>ScriptOutput::check\<close> reads its \<^verbatim>\<open>addressNum\<close>, which is 0 on a miss.
\<close>

record AddressInfo =
  rawAddress :: RawScript
  addressNum :: "32 word"
  found :: bool

text \<open>
  Modelled from the spec: \<^verbatim>\<open>findAddress(RawScript) -> AddressLookupResult{id, found}\<close>, the
  lookup in the dictionary. Like every operation on the state it hands the state on; a
  lookup leaves it as it is.
\<close>

definition findAddress :: "AddressState \<Rightarrow> RawScript \<Rightarrow> AddressInfo \<times> AddressState" where
  "findAddress state r =
     (case addressMap state r of
        None \<Rightarrow> (\<lparr>rawAddress = r, addressNum = 0, found = False\<rparr>, state)
      | Some n \<Rightarrow> (\<lparr>rawAddress = r, addressNum = n, found = True\<rparr>, state))"

text \<open>
  Modelled from the spec: \<^verbatim>\<open>getNewAddressIndex(kind) -> id\<close>, "fresh id allocation": the
  counter of the kind is returned and advanced (a \<^verbatim>\<open>uint32_t\<close>, so it wraps).
\<close>

definition getNewAddressIndex :: "AddressState \<Rightarrow> ScriptType \<Rightarrow> 32 word \<times> AddressState" where
  "getNewAddressIndex state k =
     (scriptIndexes state k,
      state\<lparr>scriptIndexes := (scriptIndexes state)(k := scriptIndexes state k + 1)\<rparr>)"

text \<open>
  Modelled from the spec: \<^verbatim>\<open>resolveAddress(AddressLookupResult) -> (id, isNew)\<close>, which
  "performs insertion on miss": "if absent, allocate the next id for that kind and mark
  isNew = true; if present, reuse the id and mark isNew = false".
\<close>

definition resolveAddress :: "AddressState \<Rightarrow> AddressInfo \<Rightarrow> (32 word \<times> bool) \<times> AddressState" where
  "resolveAddress state info =
     (if found info then ((addressNum info, False), state)
      else
        (let (n, state') = getNewAddressIndex state (rawType (rawAddress info))
         in ((n, True), state'\<lparr>addressMap := (addressMap state')(rawAddress info \<mapsto> n)\<rparr>)))"

section \<open>ScriptOutput: resolve and check\<close>

text \<open>
  The members of \<^verbatim>\<open>ScriptData<type>\<close> that \<^verbatim>\<open>ScriptOutput<type>\<close> calls. A specialisation
  of the template is a value of this record. Both \<^verbatim>\<open>resolve\<close> and \<^verbatim>\<open>check\<close> receive a reference
  to the state and return the state as the call leaves it: that \<^verbatim>\<open>check\<close> leaves it unchanged
  is then a property of what \<^verbatim>\<open>check\<close> does, not of its type.
\<close>

record 'd ScriptDataOps =
  dataGetHash :: "'d \<Rightarrow> uint160"
  dataResolve :: "'d \<Rightarrow> AddressState \<Rightarrow> 'd \<times> AddressState"
  dataCheck :: "'d \<Rightarrow> AddressState \<Rightarrow> 'd \<times> AddressState"

text \<open>
  \<^verbatim>\<open>struct ScriptDataBase { void resolve(AddressState &) {} void check(const AddressState &) {} ... }\<close>:
  the payloads that inherit both (all but multisig). \<^verbatim>\<open>getHash\<close> is declared per kind and
  defined outside the sources, so it is a parameter.
\<close>

definition ScriptDataBase :: "('d \<Rightarrow> uint160) \<Rightarrow> 'd ScriptDataOps" where
  "ScriptDataBase getHash =
     \<lparr>dataGetHash = getHash, dataResolve = (\<lambda>d state. (d, state)), dataCheck = (\<lambda>d state. (d, state))\<rparr>"

text \<open>
  \<^verbatim>\<open>ScriptOutput::resolve\<close>, lines 36 to 44: the id and the flag, and the state after the
  lookup or the allocation.
\<close>

definition resolveNum ::
  "'d ScriptDataOps \<Rightarrow> AddressType \<Rightarrow> 'd \<Rightarrow> AddressState \<Rightarrow> (32 word \<times> bool) \<times> AddressState" where
  "resolveNum ops type d state =
     (let script = scriptType type in
      if deduped script then
        (let rawAddress = \<lparr>rawHash = dataGetHash ops d, rawType = script\<rparr>;
             (addressInfo, state0) = findAddress state rawAddress
         in resolveAddress state0 addressInfo)
      else
        (let (n, state') = getNewAddressIndex state (scriptType type)
         in ((n, True), state')))"

text \<open>\<^verbatim>\<open>ScriptOutput::resolve\<close>: then \<^verbatim>\<open>if (isNew) { data.resolve(state); }\<close>.\<close>

definition resolve ::
  "'d ScriptDataOps \<Rightarrow> AddressType \<Rightarrow> 'd ScriptOutput \<Rightarrow> AddressState \<Rightarrow> 'd ScriptOutput \<times> AddressState" where
  "resolve ops type so state =
     (let ((n, new), state1) = resolveNum ops type (data so) state in
      if new then
        (let (d', state2) = dataResolve ops (data so) state1
         in (\<lparr>data = d', scriptNum = n, isNew = new\<rparr>, state2))
      else (\<lparr>data = data so, scriptNum = n, isNew = new\<rparr>, state1))"

text \<open>
  \<^verbatim>\<open>ScriptOutput::check(const AddressState &state)\<close>: the lookup, the id and the flag read
  from its result, then \<^verbatim>\<open>data.check(state)\<close>. The state is threaded through both calls.
\<close>

definition check ::
  "'d ScriptDataOps \<Rightarrow> AddressType \<Rightarrow> 'd ScriptOutput \<Rightarrow> AddressState \<Rightarrow> 'd ScriptOutput \<times> AddressState" where
  "check ops type so state =
     (let script = scriptType type;
          ((n, new), state1) =
            (if deduped script then
               (let rawAddress = \<lparr>rawHash = dataGetHash ops (data so), rawType = script\<rparr>;
                    (addressInfo, state0) = findAddress state rawAddress
                in ((addressNum addressInfo, addressNum addressInfo = 0), state0))
             else ((0, True), state));
          (d', state2) = dataCheck ops (data so) state1
      in (\<lparr>data = d', scriptNum = n, isNew = new\<rparr>, state2))"

text \<open>
  Modelled from the spec: \<^verbatim>\<open>ScriptData<MULTISIG>::resolve\<close> and \<^verbatim>\<open>check\<close> (declared in the
  header, defined outside the sources): "a multisig's member public keys each resolve as
  independent deduped public-key identities", in the order of the member list.
\<close>

fun resolveAll ::
  "'d ScriptDataOps \<Rightarrow> AddressType \<Rightarrow> 'd ScriptOutput list \<Rightarrow> AddressState
   \<Rightarrow> 'd ScriptOutput list \<times> AddressState" where
  "resolveAll ops type [] state = ([], state)"
| "resolveAll ops type (a # as) state =
     (let (a', state1) = resolve ops type a state;
          (as', state2) = resolveAll ops type as state1
      in (a' # as', state2))"

text \<open>
  Modelled from the spec: \<^verbatim>\<open>ScriptData<MULTISIG>::resolve\<close>, the cascade over the member
  public keys.
\<close>

definition multisigResolve ::
  "(PubkeyData \<Rightarrow> uint160) \<Rightarrow> MultisigData \<Rightarrow> AddressState \<Rightarrow> MultisigData \<times> AddressState" where
  "multisigResolve pubkeyHash d state =
     (let (as', state') = resolveAll (ScriptDataBase pubkeyHash) PUBKEY (addresses d) state
      in (d\<lparr>addresses := as'\<rparr>, state'))"

text \<open>
  Modelled from the spec: \<^verbatim>\<open>ScriptData<MULTISIG>::check\<close>, the counterpart of the cascade:
  each member is checked in turn, in the order of the member list.
\<close>

fun checkAll ::
  "'d ScriptDataOps \<Rightarrow> AddressType \<Rightarrow> 'd ScriptOutput list \<Rightarrow> AddressState
   \<Rightarrow> 'd ScriptOutput list \<times> AddressState" where
  "checkAll ops type [] state = ([], state)"
| "checkAll ops type (a # as) state =
     (let (a', state1) = check ops type a state;
          (as', state2) = checkAll ops type as state1
      in (a' # as', state2))"

definition multisigCheck ::
  "(PubkeyData \<Rightarrow> uint160) \<Rightarrow> MultisigData \<Rightarrow> AddressState \<Rightarrow> MultisigData \<times> AddressState" where
  "multisigCheck pubkeyHash d state =
     (let (as', state') = checkAll (ScriptDataBase pubkeyHash) PUBKEY (addresses d) state
      in (d\<lparr>addresses := as'\<rparr>, state'))"

text \<open>
  The multisig specialisation. Its \<^verbatim>\<open>getHash\<close> and that of the member keys are declared in
  the header and defined outside the sources, so they are parameters.
\<close>

definition ScriptDataMultisig ::
  "(MultisigData \<Rightarrow> uint160) \<Rightarrow> (PubkeyData \<Rightarrow> uint160) \<Rightarrow> MultisigData ScriptDataOps" where
  "ScriptDataMultisig getHash pubkeyHash =
     \<lparr>dataGetHash = getHash, dataResolve = multisigResolve pubkeyHash,
      dataCheck = multisigCheck pubkeyHash\<rparr>"

text \<open>
  A caller's sequence of calls on outputs of one kind, run in order against the state,
  each call receiving the state as the call before left it.
\<close>

datatype 'd Call = Resolve "'d ScriptOutput" | Check "'d ScriptOutput"

fun isResolve :: "'d Call \<Rightarrow> bool" where
  "isResolve (Resolve so) = True"
| "isResolve (Check so) = False"

fun run ::
  "'d ScriptDataOps \<Rightarrow> AddressType \<Rightarrow> 'd Call list \<Rightarrow> AddressState
   \<Rightarrow> 'd ScriptOutput list \<times> AddressState" where
  "run ops type [] state = ([], state)"
| "run ops type (Resolve so # cs) state =
     (let (so', state1) = resolve ops type so state;
          (outs, state2) = run ops type cs state1
      in (so' # outs, state2))"
| "run ops type (Check so # cs) state =
     (let (so', state1) = check ops type so state;
          (outs, state2) = run ops type cs state1
      in (so' # outs, state2))"

section \<open>Blocks and the chain\<close>

text \<open>
  Transaction indexes and counts are \<^verbatim>\<open>uint32_t\<close>: natural numbers, with the wrap-around
  of the operations written out.
\<close>

definition uint32_modulus :: nat where
  "uint32_modulus = 2 ^ 32"

definition u32_add :: "nat \<Rightarrow> nat \<Rightarrow> nat" where
  "u32_add a b = (a + b) mod uint32_modulus"

definition u32_sub :: "nat \<Rightarrow> nat \<Rightarrow> nat" where
  "u32_sub a b = (a + uint32_modulus - b mod uint32_modulus) mod uint32_modulus"

text \<open>
  Modelled from the spec: \<^verbatim>\<open>Block\<close> (block.hpp is not among the sources), "height,
  firstTxIndex, endTxIndex (half-open), size" with \<open>endTxIndex - firstTxIndex = size\<close>.
  A \<^verbatim>\<open>Blockchain\<close> is the list of its blocks, \<^verbatim>\<open>chain[i]\<close> the block at height \<open>i\<close> and
  \<^verbatim>\<open>chain.size()\<close> the length of the list.
\<close>

record Block =
  height :: nat
  firstTxIndex :: nat
  blockSize :: nat

text \<open>
  Modelled from the spec: \<^verbatim>\<open>Block::endTxIndex\<close>, \<open>firstTxIndex + size\<close> in \<^verbatim>\<open>uint32_t\<close>.
\<close>

definition endTxIndex :: "Block \<Rightarrow> nat" where
  "endTxIndex b = u32_add (firstTxIndex b) (blockSize b)"

text \<open>
  Modelled from the spec: the invariant of a chain. Heights count from 0, the first block
  starts at transaction 0, consecutive blocks are contiguous
  (\<open>block[i].endTxIndex = block[i+1].firstTxIndex\<close>), and every index fits \<^verbatim>\<open>uint32_t\<close>.
\<close>

fun valid_from :: "nat \<Rightarrow> nat \<Rightarrow> Block list \<Rightarrow> bool" where
  "valid_from h first [] = (first < uint32_modulus)"
| "valid_from h first (b # bs) =
     (height b = h \<and> firstTxIndex b = first \<and> valid_from (h + 1) (first + blockSize b) bs)"

definition valid_chain :: "Block list \<Rightarrow> bool" where
  "valid_chain chain = valid_from 0 0 chain"

text \<open>
  Reading past either end of the chain or of the boundary array, and \<^verbatim>\<open>back()\<close> of an
  empty vector, are undefined behaviour; a failed \<^verbatim>\<open>assert\<close> aborts. Both are results of
  the model.
\<close>

datatype error = OutOfBounds | AssertionFailed

definition chainAt :: "Block list \<Rightarrow> int \<Rightarrow> error + Block" where
  "chainAt chain i =
     (if 0 \<le> i \<and> i < int (length chain) then Inr (chain ! nat i) else Inl OutOfBounds)"

section \<open>Double precision\<close>

text \<open>
  \<^verbatim>\<open>segmentSize\<close> and \<^verbatim>\<open>breakPoint\<close> are \<^verbatim>\<open>double\<close>. Every finite binary64 value is a
  rational number, and each operation returns the exact result rounded to the nearest
  value with a 53 bit significand, ties to even. The values that occur here are 0 or lie
  between \<open>2 ^ -32\<close> and \<open>2 ^ 33\<close>, far inside the exponent range, so infinities and NaN
  arise only in the division by a zero \<^verbatim>\<open>segmentCount\<close>, which \<open>segmentChain\<close> below treats
  apart. A \<^verbatim>\<open>uint32_t\<close> converts to \<^verbatim>\<open>double\<close> exactly.
\<close>

type_synonym double = rat

text \<open>The binary exponent of a positive number: \<open>2 ^ e \<le> x < 2 ^ (e + 1)\<close>.\<close>

definition floor_log2 :: "rat \<Rightarrow> int" where
  "floor_log2 x = (if 1 \<le> x then bitlen \<lfloor>x\<rfloor> - 1 else - bitlen (\<lceil>1 / x\<rceil> - 1))"

text \<open>The nearest integer, a tie going to the even one.\<close>

definition round_half_even :: "rat \<Rightarrow> int" where
  "round_half_even y =
     (let n = \<lfloor>y\<rfloor>; f = y - of_int n
      in if f < 1 / 2 then n else if 1 / 2 < f then n + 1 else if even n then n else n + 1)"

text \<open>
  Rounding to binary64: the unit in the last place is \<open>2 ^ (e - 52)\<close> for the exponent \<open>e\<close>
  of the number, and \<open>2 ^ -1074\<close> below the normal range.
\<close>

definition round_double :: "rat \<Rightarrow> double" where
  "round_double x =
     (if x = 0 then 0
      else
        (let a = \<bar>x\<bar>;
             e = max (floor_log2 a) (- 1022);
             u = power_int 2 (e - 52)
         in sgn x * of_int (round_half_even (a / u)) * u))"

text \<open>The conversion of a \<^verbatim>\<open>uint32_t\<close>, and the two operations of \<open>segmentChain\<close>.\<close>

definition double_of_nat :: "nat \<Rightarrow> double" where
  "double_of_nat n = of_nat n"

definition double_div :: "double \<Rightarrow> double \<Rightarrow> double" where
  "double_div x y = round_double (x / y)"

definition double_add :: "double \<Rightarrow> double \<Rightarrow> double" where
  "double_add x y = round_double (x + y)"

section \<open>segmentChain\<close>

text \<open>
  \<^verbatim>\<open>std::lower_bound(first, last, value)\<close> on the boundary array, by positions: the first
  position of \<open>[firstIt, lastIt)\<close> whose element is not less than the value, \<open>lastIt\<close> when
  there is none. It reads elements of \<open>[firstIt, lastIt)\<close> only.
\<close>

definition lower_bound :: "nat list \<Rightarrow> nat \<Rightarrow> nat \<Rightarrow> double \<Rightarrow> nat" where
  "lower_bound xs firstIt lastIt v =
     firstIt + length (takeWhile (\<lambda>x. double_of_nat x < v) (take (lastIt - firstIt) (drop firstIt xs)))"

text \<open>
  The while loop (lines 46 to 54). \<open>it\<close> is the position of the iterator in
  \<^verbatim>\<open>txIndexes\<close>; the loop condition dereferences it, which is out of bounds at the end of
  the array. The loop may run forever, so its result is an option.
  \<^verbatim>\<open>
  while(lastTx - *it > segmentSize) {
      auto segmentStart = std::distance(txIndexes.begin(), it);
      auto breakPoint = *it + segmentSize;
      auto endIt = txIndexes.begin();
      std::advance(endIt, static_cast<int64_t>(endBlock));
      it = std::lower_bound(it, endIt, breakPoint);
      auto segmentEnd = std::distance(txIndexes.begin(), it);
      segments.push_back(chain | drop(segmentStart) | take(segmentEnd - segmentStart) | to_vector);
  }
  \<close>
\<close>

partial_function (option) segmentLoop ::
  "Block list \<Rightarrow> nat list \<Rightarrow> nat \<Rightarrow> double \<Rightarrow> nat \<Rightarrow> nat \<Rightarrow> Block list list
   \<Rightarrow> (error + nat \<times> Block list list) option" where
  "segmentLoop chain txIndexes lastTx segmentSize endBlock it segments =
     (if length txIndexes \<le> it then Some (Inl OutOfBounds)
      else if segmentSize < double_of_nat (u32_sub lastTx (txIndexes ! it)) then
        (if endBlock < it \<or> length txIndexes < endBlock then Some (Inl OutOfBounds)
         else
           (let segmentStart = it;
                breakPoint = double_add (double_of_nat (txIndexes ! it)) segmentSize;
                it' = lower_bound txIndexes it endBlock breakPoint;
                segmentEnd = it'
            in segmentLoop chain txIndexes lastTx segmentSize endBlock it'
                 (segments @ [take (segmentEnd - segmentStart) (drop segmentStart chain)])))
      else Some (Inr (it, segments)))"

text \<open>
  What a run of the loop that returns has done, from the position \<open>it\<close> and the segments
  pushed so far: it stopped at a position of the range that it could read, where the loop
  condition is false, and the segments it pushed are the blocks between the two positions,
  in order. An error is an out-of-bounds read, and only with \<open>endBlock\<close> at the end of the
  boundary array.
\<close>

definition loop_post ::
  "Block list \<Rightarrow> nat list \<Rightarrow> nat \<Rightarrow> double \<Rightarrow> nat \<Rightarrow> nat \<Rightarrow> Block list list
   \<Rightarrow> (error + nat \<times> Block list list) \<Rightarrow> bool" where
  "loop_post chain txIndexes lastTx segmentSize endBlock it segments r =
     (case r of Inl e \<Rightarrow> e = OutOfBounds \<and> length txIndexes \<le> endBlock
      | Inr (it', segments') \<Rightarrow>
          it \<le> it' \<and> it' \<le> endBlock \<and> it' < length txIndexes
          \<and> \<not> segmentSize < double_of_nat (u32_sub lastTx (txIndexes ! it'))
          \<and> concat segments' = concat segments @ take (it' - it) (drop it chain)
          \<and> length segments \<le> length segments')"

text \<open>
  One state of the loop from which it makes no progress (shown below): the boundary at
  \<open>it\<close> is \<open>2 ^ 30\<close>, one transaction remains, and \<^verbatim>\<open>segmentSize\<close> is \<open>2 ^ -26\<close>, which the
  addition to \<open>2 ^ 30\<close> rounds away. A run that returns was never in it.
\<close>

definition stalled ::
  "Block list \<Rightarrow> nat list \<Rightarrow> nat \<Rightarrow> double \<Rightarrow> nat \<Rightarrow> nat \<Rightarrow> Block list list
   \<Rightarrow> (error + nat \<times> Block list list) \<Rightarrow> bool" where
  "stalled chain txIndexes lastTx segmentSize endBlock it segments r =
     (\<not> (txIndexes = [0, 1073741824, 1073741825] \<and> lastTx = 1073741825
         \<and> segmentSize = 1 / 67108864 \<and> endBlock = 2 \<and> it = 1))"

text \<open>The inner loop of the postcondition check: \<^verbatim>\<open>uint32_t count = 0; count += block.size()\<close>.\<close>

definition segmentTxCount :: "Block list \<Rightarrow> nat" where
  "segmentTxCount segment = foldl (\<lambda>count block. u32_add count (blockSize block)) 0 segment"

text \<open>
  \<^verbatim>\<open>segmentChain(chain, startBlock, endBlock, segmentCount)\<close>. With \<^verbatim>\<open>segmentCount\<close> zero the
  quotient is infinite or NaN, the loop condition is false, and \<^verbatim>\<open>segments.back()\<close> is
  taken of the empty vector.
\<close>

definition segmentChain ::
  "Block list \<Rightarrow> int \<Rightarrow> int \<Rightarrow> nat \<Rightarrow> (error + Block list list) option" where
  "segmentChain chain startBlock endBlock segmentCount =
     (case chainAt chain startBlock of Inl e \<Rightarrow> Some (Inl e) | Inr firstBlock \<Rightarrow>
     (case chainAt chain (endBlock - 1) of Inl e \<Rightarrow> Some (Inl e) | Inr lastBlock \<Rightarrow>
      (let lastTx = endTxIndex lastBlock;
           firstTx = firstTxIndex firstBlock;
           totalTxCount = u32_sub lastTx firstTx
       in if segmentCount = 0 then Some (Inl OutOfBounds)
          else
            (let segmentSize = double_div (double_of_nat totalTxCount) (double_of_nat segmentCount);
                 txIndexes = map firstTxIndex chain
             in (case segmentLoop chain txIndexes lastTx segmentSize (nat endBlock) (nat startBlock) [] of
                  None \<Rightarrow> None
                | Some (Inl e) \<Rightarrow> Some (Inl e)
                | Some (Inr (it, segments)) \<Rightarrow>
                    (let segmentStart = it;
                         remainingRange = take (nat endBlock - segmentStart) (drop segmentStart chain);
                         segments' =
                           (if length segments = segmentCount
                            then butlast segments @ [last segments @ remainingRange]
                            else segments @ [remainingRange]);
                         totalCount =
                           foldl (\<lambda>total segment. u32_add total (segmentTxCount segment)) 0 segments'
                     in if totalCount = totalTxCount then Some (Inr segments')
                        else Some (Inl AssertionFailed)))))))"

section \<open>Map-reduce and filter\<close>

text \<open>
  Modelled from the spec: a \<^verbatim>\<open>Transaction\<close> is identified by its index in the chain, and
  iterating over a block yields its transactions in index order (transaction.hpp and
  block.hpp are not among the sources).
\<close>

record Transaction =
  txNum :: nat

text \<open>
  Modelled from the spec: the transactions of a block, \<^verbatim>\<open>for (auto tx : block)\<close>, those with
  the indexes from \<open>firstTxIndex\<close> up to \<open>endTxIndex\<close>, in order.
\<close>

definition blockTxes :: "Block \<Rightarrow> Transaction list" where
  "blockTxes block =
     map (\<lambda>i. \<lparr>txNum = i\<rparr>) [firstTxIndex block ..< firstTxIndex block + blockSize block]"

text \<open>
  Modelled from the spec: \<^verbatim>\<open>Blockchain::mapReduce\<close> (blockchain.hpp is not among the
  sources): "compute Segments via 4.2 for some implementation-chosen segmentCount", apply
  \<^verbatim>\<open>map\<close> to each segment, and "apply reduce serially, folding partial results in original
  segment (block) order into the accumulator". The segment count is a parameter.
\<close>

definition mapReduce ::
  "nat \<Rightarrow> Block list \<Rightarrow> int \<Rightarrow> int \<Rightarrow> (Block list \<Rightarrow> 'm) \<Rightarrow> ('r \<Rightarrow> 'm \<Rightarrow> 'r) \<Rightarrow> 'r
   \<Rightarrow> (error + 'r) option" where
  "mapReduce segmentCount chain start stop mapFunc reduceFunc identity =
     (case segmentChain chain start stop segmentCount of
        None \<Rightarrow> None
      | Some (Inl e) \<Rightarrow> Some (Inl e)
      | Some (Inr segments) \<Rightarrow> Some (Inr (foldl reduceFunc identity (map mapFunc segments))))"

text \<open>
  \<^verbatim>\<open>filter(chain, startBlock, endBlock, testFunc)\<close>, the \<^verbatim>\<open>Transaction\<close> overload (lines 176
  to 197): the two nested loops of \<^verbatim>\<open>mapFunc\<close> push the matching transactions, and
  \<^verbatim>\<open>reduceFunc\<close> appends \<^verbatim>\<open>vec2\<close> to \<^verbatim>\<open>vec1\<close>.
\<close>

definition filter_Transaction ::
  "nat \<Rightarrow> Block list \<Rightarrow> int \<Rightarrow> int \<Rightarrow> (Transaction \<Rightarrow> bool) \<Rightarrow> (error + Transaction list) option" where
  "filter_Transaction segmentCount chain startBlock endBlock testFunc =
     (let mapFunc = (\<lambda>segment.
            foldl (\<lambda>txes block.
                     foldl (\<lambda>txes tx. if testFunc tx then txes @ [tx] else txes) txes (blockTxes block))
              [] segment);
          reduceFunc = (\<lambda>vec1 vec2. vec1 @ vec2);
          txes = []
      in mapReduce segmentCount chain startBlock endBlock mapFunc reduceFunc txes)"


section \<open>Dedup, cascade and check\<close>

text \<open>
  C1. For every deduped address kind, resolving the same RawScript key twice in sequence
  against the same AddressState yields the same numeric id both times, and the second
  resolve is not new. The first resolve is new exactly when the key is not in the
  dictionary yet, that is, the first time the key is resolved. Against a fresh AddressState
  two scripts with the same 160-bit hash and kind resolve to \<open>(id = 1, isNew = true)\<close> and
  then \<open>(id = 1, isNew = false)\<close>. The payloads of the deduped kinds inherit the empty
  \<^verbatim>\<open>resolve\<close> of \<^verbatim>\<open>ScriptDataBase\<close>.
\<close>

theorem resolve_dedup_idempotent:
  assumes "deduped (scriptType type)" and "getHash (data so') = getHash (data so)"
  shows "(case resolve (ScriptDataBase getHash) type so state of (o1, state1) \<Rightarrow>
          case resolve (ScriptDataBase getHash) type so' state1 of (o2, state2) \<Rightarrow>
            scriptNum o2 = scriptNum o1 \<and> isNew o2 = False
            \<and> isNew o1 = (addressMap state \<lparr>rawHash = getHash (data so), rawType = scriptType type\<rparr> = None))
       \<and> (case resolve (ScriptDataBase getHash) type so emptyAddressState of (o1, state1) \<Rightarrow>
          case resolve (ScriptDataBase getHash) type so' state1 of (o2, state2) \<Rightarrow>
            (scriptNum o1, isNew o1) = (1, True) \<and> (scriptNum o2, isNew o2) = (1, False))"
  using assms
  by (auto simp: resolve_def resolveNum_def ScriptDataBase_def findAddress_def resolveAddress_def
      getNewAddressIndex_def emptyAddressState_def Let_def split: option.splits prod.splits)

theorem resolve_dedup_idempotent_witness:
  "deduped (scriptType PUBKEYHASH)
   \<and> (case resolve (ScriptDataBase (\<lambda>h. h)) PUBKEYHASH \<lparr>data = 7, scriptNum = 0, isNew = False\<rparr>
               emptyAddressState of (o1, state1) \<Rightarrow>
        case resolve (ScriptDataBase (\<lambda>h. h)) PUBKEYHASH \<lparr>data = 7, scriptNum = 0, isNew = False\<rparr>
               state1 of (o2, state2) \<Rightarrow>
          (scriptNum o1, isNew o1) = (1, True) \<and> (scriptNum o2, isNew o2) = (1, False)
          \<and> scriptNum o2 = scriptNum o1)"
  using resolve_dedup_idempotent [of PUBKEYHASH "\<lambda>h. h" "\<lparr>data = 7, scriptNum = 0, isNew = False\<rparr>"
      "\<lparr>data = 7, scriptNum = 0, isNew = False\<rparr>" emptyAddressState]
  by (simp add: scriptType_def split: prod.splits)

text \<open>
  C2. In \<^verbatim>\<open>ScriptOutput::resolve\<close> the nested payloads of a script are cascade-resolved
  against AddressState if and only if the resolution of the enclosing script produced
  \<open>isNew = true\<close>: then the payload and the state are what \<^verbatim>\<open>data.resolve\<close> returns on the
  state left by the lookup or the allocation. When \<open>isNew = false\<close> the payload is returned
  as it was and the state is the one \<^verbatim>\<open>resolve\<close> was called with, so nothing nested was
  resolved or mutated. This holds for every specialisation of the payload.
\<close>

theorem resolve_cascades_iff_new:
  "(case resolve ops type so state of (so', state') \<Rightarrow>
    case resolveNum ops type (data so) state of ((n, new), state1) \<Rightarrow>
      scriptNum so' = n \<and> isNew so' = new \<and>
      (if isNew so' then (data so', state') = dataResolve ops (data so) state1
       else data so' = data so \<and> state' = state))"
  by (auto simp: resolve_def resolveNum_def findAddress_def resolveAddress_def
      getNewAddressIndex_def Let_def split: option.splits prod.splits)

subsection \<open>Checks\<close>

lemma check_base_state: "snd (check (ScriptDataBase getHash) type so state) = state"
  by (simp add: check_def ScriptDataBase_def findAddress_def Let_def split: option.splits prod.splits)

lemma checkAll_base_state: "snd (checkAll (ScriptDataBase getHash) type as state) = state"
proof (induction as)
  case Nil
  show ?case by simp
next
  case (Cons a as)
  then show ?case by (simp add: case_prod_beta check_base_state)
qed

lemma check_multisig_state:
  "snd (check (ScriptDataMultisig getHash pubkeyHash) type so state) = state"
proof -
  obtain as' s' where
    c: "checkAll (ScriptDataBase pubkeyHash) PUBKEY (addresses (data so)) state = (as', s')"
    by (cases "checkAll (ScriptDataBase pubkeyHash) PUBKEY (addresses (data so)) state")
  with checkAll_base_state [of pubkeyHash PUBKEY "addresses (data so)" state]
  have "s' = state" by simp
  with c show ?thesis
    by (simp add: check_def ScriptDataMultisig_def multisigCheck_def findAddress_def Let_def
        split: option.splits prod.splits)
qed

lemma run_checks_state:
  assumes "\<And>so s. snd (check ops type so s) = s"
  shows "snd (run ops type (map Check sos) state) = state"
proof (induction sos)
  case Nil
  show ?case by simp
next
  case (Cons so sos)
  then show ?case by (simp add: case_prod_beta assms)
qed

lemma run_drop_checks:
  assumes "\<And>so s. snd (check ops type so s) = s"
  shows "snd (run ops type cs state) = snd (run ops type (filter isResolve cs) state)"
proof (induction cs arbitrary: state)
  case Nil
  show ?case by simp
next
  case (Cons c cs)
  show ?case
  proof (cases c)
    case (Resolve so)
    with Cons.IH show ?thesis by (simp add: case_prod_beta)
  next
    case (Check so)
    with Cons.IH show ?thesis by (simp add: case_prod_beta assms)
  qed
qed

text \<open>
  C3. For every address kind and every AddressState, any sequence of \<^verbatim>\<open>check\<close> calls, with
  the nested \<^verbatim>\<open>data.check\<close> of each, leaves the AddressState unchanged. \<^verbatim>\<open>check\<close> of a
  payload with the inherited \<^verbatim>\<open>data.check\<close> (every kind but multisig) returns the state it
  was called with, and its id is that of the lookup, 0 for a kind that is not deduped;
  \<^verbatim>\<open>check\<close> of a multisig payload, which checks every member, returns the state it was
  called with too. So does any sequence of \<^verbatim>\<open>check\<close> calls, and in any interleaving with
  \<^verbatim>\<open>resolve\<close> calls the final state is the one the \<^verbatim>\<open>resolve\<close> calls alone produce.
\<close>

theorem check_leaves_state_unchanged:
  "snd (check (ScriptDataBase getHash) type so state) = state
   \<and> scriptNum (fst (check (ScriptDataBase getHash) type so state))
       = (if deduped (scriptType type)
          then (case addressMap state \<lparr>rawHash = getHash (data so), rawType = scriptType type\<rparr> of
                  None \<Rightarrow> 0 | Some n \<Rightarrow> n)
          else 0)
   \<and> snd (check (ScriptDataMultisig multisigHash pubkeyHash) type mso state) = state
   \<and> snd (run (ScriptDataBase getHash) type (map Check sos) state) = state
   \<and> snd (run (ScriptDataMultisig multisigHash pubkeyHash) type (map Check msos) state) = state
   \<and> snd (run (ScriptDataBase getHash) type cs state)
       = snd (run (ScriptDataBase getHash) type (filter isResolve cs) state)
   \<and> snd (run (ScriptDataMultisig multisigHash pubkeyHash) type mcs state)
       = snd (run (ScriptDataMultisig multisigHash pubkeyHash) type (filter isResolve mcs) state)"
proof (intro conjI)
  show "snd (check (ScriptDataBase getHash) type so state) = state"
    by (rule check_base_state)
  show "scriptNum (fst (check (ScriptDataBase getHash) type so state))
       = (if deduped (scriptType type)
          then (case addressMap state \<lparr>rawHash = getHash (data so), rawType = scriptType type\<rparr> of
                  None \<Rightarrow> 0 | Some n \<Rightarrow> n)
          else 0)"
    by (simp add: check_def ScriptDataBase_def findAddress_def Let_def split: option.splits prod.splits)
  show "snd (check (ScriptDataMultisig multisigHash pubkeyHash) type mso state) = state"
    by (rule check_multisig_state)
  show "snd (run (ScriptDataBase getHash) type (map Check sos) state) = state"
    by (rule run_checks_state) (rule check_base_state)
  show "snd (run (ScriptDataMultisig multisigHash pubkeyHash) type (map Check msos) state) = state"
    by (rule run_checks_state) (rule check_multisig_state)
  show "snd (run (ScriptDataBase getHash) type cs state)
       = snd (run (ScriptDataBase getHash) type (filter isResolve cs) state)"
    by (rule run_drop_checks) (rule check_base_state)
  show "snd (run (ScriptDataMultisig multisigHash pubkeyHash) type mcs state)
       = snd (run (ScriptDataMultisig multisigHash pubkeyHash) type (filter isResolve mcs) state)"
    by (rule run_drop_checks) (rule check_multisig_state)
qed

subsection \<open>The member keys of a multisig script\<close>

lemma resolve_pubkey_found:
  assumes "addressMap s \<lparr>rawHash = gh (data a), rawType = PUBKEY\<rparr> = Some n"
  shows "resolve (ScriptDataBase gh) PUBKEY a s = (\<lparr>data = data a, scriptNum = n, isNew = False\<rparr>, s)"
  using assms
  by (simp add: resolve_def resolveNum_def ScriptDataBase_def findAddress_def resolveAddress_def
      Let_def scriptType_def)

lemma resolve_pubkey_missing:
  assumes "addressMap s \<lparr>rawHash = gh (data a), rawType = PUBKEY\<rparr> = None"
  shows "resolve (ScriptDataBase gh) PUBKEY a s =
           (\<lparr>data = data a, scriptNum = scriptIndexes s PUBKEY, isNew = True\<rparr>,
            \<lparr>addressMap = (addressMap s)(\<lparr>rawHash = gh (data a), rawType = PUBKEY\<rparr> \<mapsto> scriptIndexes s PUBKEY),
             scriptIndexes = (scriptIndexes s)(PUBKEY := scriptIndexes s PUBKEY + 1)\<rparr>)"
  using assms
  by (simp add: resolve_def resolveNum_def ScriptDataBase_def findAddress_def resolveAddress_def
      getNewAddressIndex_def Let_def scriptType_def)

text \<open>What the cascade over the member keys does, from any state.\<close>

lemma resolveAll_pubkey:
  fixes gh :: "PubkeyData \<Rightarrow> uint160"
  defines "key \<equiv> \<lambda>a. \<lparr>rawHash = gh (data a), rawType = PUBKEY\<rparr>"
  assumes r: "resolveAll (ScriptDataBase gh) PUBKEY as s = (outs, s')"
  shows "map data outs = map data as
       \<and> map isNew outs
           = map (\<lambda>i. key (as ! i) \<notin> dom (addressMap s) \<union> key ` set (take i as)) [0..<length as]
       \<and> map (\<lambda>a. addressMap s' (key a)) as = map (\<lambda>a. Some (scriptNum a)) outs
       \<and> addressMap s \<subseteq>\<^sub>m addressMap s'
       \<and> dom (addressMap s') = dom (addressMap s) \<union> key ` set as
       \<and> map scriptNum (filter isNew outs)
           = map (\<lambda>j. scriptIndexes s PUBKEY + of_nat j) [0..<length (filter isNew outs)]
       \<and> scriptIndexes s'
           = (scriptIndexes s)(PUBKEY := scriptIndexes s PUBKEY + of_nat (length (filter isNew outs)))"
  using r
proof (induction as arbitrary: s outs s')
  case Nil
  then show ?case by simp
next
  case (Cons a as)
  obtain a' s1 where r1: "resolve (ScriptDataBase gh) PUBKEY a s = (a', s1)"
    by (cases "resolve (ScriptDataBase gh) PUBKEY a s")
  obtain as' s2 where r2: "resolveAll (ScriptDataBase gh) PUBKEY as s1 = (as', s2)"
    by (cases "resolveAll (ScriptDataBase gh) PUBKEY as s1")
  from Cons.prems r1 r2 have eq: "outs = a' # as'" "s' = s2" by auto
  note ih = Cons.IH [OF r2]
  have ih1: "map data as' = map data as" using ih by blast
  have ih2: "map isNew as'
      = map (\<lambda>i. key (as ! i) \<notin> dom (addressMap s1) \<union> key ` set (take i as)) [0..<length as]"
    using ih by blast
  have ih3: "map (\<lambda>a. addressMap s2 (key a)) as = map (\<lambda>a. Some (scriptNum a)) as'" using ih by blast
  have ih4: "addressMap s1 \<subseteq>\<^sub>m addressMap s2" using ih by blast
  have ih5: "dom (addressMap s2) = dom (addressMap s1) \<union> key ` set as" using ih by blast
  have ih6: "map scriptNum (filter isNew as')
      = map (\<lambda>j. scriptIndexes s1 PUBKEY + of_nat j) [0..<length (filter isNew as')]"
    using ih by blast
  have ih7: "scriptIndexes s2
      = (scriptIndexes s1)(PUBKEY := scriptIndexes s1 PUBKEY + of_nat (length (filter isNew as')))"
    using ih by blast
  have shift: "map (\<lambda>i. key ((a # as) ! i) \<notin> dom (addressMap s) \<union> key ` set (take i (a # as)))
                 [0..<length (a # as)]
      = (key a \<notin> dom (addressMap s))
        # map (\<lambda>i. key (as ! i) \<notin> dom (addressMap s) \<union> {key a} \<union> key ` set (take i as))
            [0..<length as]"
    by (auto simp: map_upt_Suc simp del: upt_Suc)
  show ?case
  proof (cases "addressMap s (key a)")
    case (Some n)
    then have f: "addressMap s \<lparr>rawHash = gh (data a), rawType = PUBKEY\<rparr> = Some n"
      by (simp add: key_def)
    from resolve_pubkey_found [of s gh a n, OF f] r1
    have a': "a' = \<lparr>data = data a, scriptNum = n, isNew = False\<rparr>" and s1: "s1 = s" by simp_all
    have d: "dom (addressMap s) \<union> {key a} = dom (addressMap s)" using Some by auto
    have k: "addressMap s2 (key a) = Some n"
      using ih4 Some by (auto simp: s1 map_le_def dom_def)
    have dm: "dom (addressMap s2) = dom (addressMap s) \<union> key ` set (a # as)"
      using ih5 Some by (auto simp: s1)
    have inew: "map isNew as'
      = map (\<lambda>i. key (as ! i) \<notin> dom (addressMap s) \<union> {key a} \<union> key ` set (take i as)) [0..<length as]"
      using ih2 by (simp only: s1 d)
    have "key a \<in> dom (addressMap s)" using Some by auto
    then show ?thesis
      unfolding eq shift
      using ih1 inew ih3 ih4 dm ih6 ih7 k
      by (simp add: a' s1 del: set_simps Un_insert_right)
  next
    case None
    then have f: "addressMap s \<lparr>rawHash = gh (data a), rawType = PUBKEY\<rparr> = None"
      by (simp add: key_def)
    let ?n = "scriptIndexes s PUBKEY"
    from resolve_pubkey_missing [of s gh a, OF f] r1
    have a': "a' = \<lparr>data = data a, scriptNum = ?n, isNew = True\<rparr>"
      and s1: "s1 = \<lparr>addressMap = (addressMap s)(key a \<mapsto> ?n),
                     scriptIndexes = (scriptIndexes s)(PUBKEY := ?n + 1)\<rparr>"
      by (simp_all add: key_def)
    have d1: "dom (addressMap s1) = dom (addressMap s) \<union> {key a}" by (auto simp: s1)
    have i1: "scriptIndexes s1 PUBKEY = ?n + 1" by (simp add: s1)
    have k: "addressMap s2 (key a) = Some ?n"
      using ih4 by (auto simp: s1 map_le_def dom_def)
    have le: "addressMap s \<subseteq>\<^sub>m addressMap s2"
    proof -
      have "addressMap s \<subseteq>\<^sub>m addressMap s1" using None by (auto simp: s1 map_le_def)
      then show ?thesis using ih4 by (rule map_le_trans)
    qed
    have nums: "map scriptNum (filter isNew (a' # as'))
        = map (\<lambda>j. ?n + of_nat j) [0..<length (filter isNew (a' # as'))]"
    proof -
      have "map (\<lambda>j. ?n + of_nat j) [0..<Suc (length (filter isNew as'))]
          = ?n # map (\<lambda>j. ?n + 1 + of_nat j) [0..<length (filter isNew as')]"
        by (simp add: map_upt_Suc add.assoc del: upt_Suc)
      then show ?thesis using ih6 by (simp add: a' i1)
    qed
    have idx: "scriptIndexes s2
        = (scriptIndexes s)(PUBKEY := ?n + of_nat (length (filter isNew (a' # as'))))"
      using ih7 by (simp add: a' s1 add.assoc fun_eq_iff)
    have dm: "dom (addressMap s2) = dom (addressMap s) \<union> key ` set (a # as)"
      using ih5 by (auto simp: d1)
    have inew: "map isNew as'
      = map (\<lambda>i. key (as ! i) \<notin> dom (addressMap s) \<union> {key a} \<union> key ` set (take i as)) [0..<length as]"
      using ih2 by (simp only: d1)
    have "key a \<notin> dom (addressMap s)" using None by auto
    then show ?thesis
      unfolding eq shift
      using ih1 inew ih3 dm k le nums idx
      by (simp add: a' del: set_simps Un_insert_right)
  qed
qed


lemma resolveAll_second:
  assumes "map (\<lambda>a. addressMap s \<lparr>rawHash = gh (data a), rawType = PUBKEY\<rparr>) as = map Some ns"
  shows "resolveAll (ScriptDataBase gh) PUBKEY as s =
           (map (\<lambda>(a, n). \<lparr>data = data a, scriptNum = n, isNew = False\<rparr>) (zip as ns), s)"
  using assms
proof (induction as arbitrary: ns)
  case Nil
  then show ?case by simp
next
  case (Cons a as)
  then obtain n ns' where ns: "ns = n # ns'" by (cases ns) auto
  with Cons.prems have h: "addressMap s \<lparr>rawHash = gh (data a), rawType = PUBKEY\<rparr> = Some n"
    and t: "map (\<lambda>a. addressMap s \<lparr>rawHash = gh (data a), rawType = PUBKEY\<rparr>) as = map Some ns'"
    by auto
  show ?case
    using h by (simp add: ns resolve_pubkey_found Cons.IH [OF t])
qed

lemma zip_found_scriptNum:
  "length as = length ns \<Longrightarrow>
   map scriptNum (map (\<lambda>(a, n). \<lparr>data = data a, scriptNum = n, isNew = False\<rparr>) (zip as ns)) = ns"
  by (induction as ns rule: list_induct2) auto

lemma zip_found_isNew:
  "length as = length ns \<Longrightarrow>
   map isNew (map (\<lambda>(a, n). \<lparr>data = data a, scriptNum = n, isNew = False\<rparr>) (zip as ns))
     = map (\<lambda>a. False) as"
  by (induction as ns rule: list_induct2) auto

text \<open>
  C10. Multisig scripts are not hash-deduplicated: for every multisig payload, \<^verbatim>\<open>resolve\<close>
  against any AddressState hands out the next id of the multisig kind and sets
  \<open>isNew = true\<close>, also for a script resolved a second time, which gets the following id.
  The member public keys dedup as usual. In the first resolve a member is new exactly when
  its key is neither in the dictionary nor that of an earlier member; the new members get
  the next ids of the public-key kind, in order; afterwards every member's key is in the
  dictionary under the member's id, the keys that were there keep their ids, and nothing
  else was added. In the second resolve each member gets the id it got in the first and is
  not new, and the dictionary stays as it is.
\<close>

theorem multisig_resolve_always_fresh:
  "(let key = (\<lambda>a. \<lparr>rawHash = pubkeyHash (data a), rawType = PUBKEY\<rparr>);
        members = addresses (data so)
    in case resolve (ScriptDataMultisig getHash pubkeyHash) MULTISIG so state of (o1, state1) \<Rightarrow>
       case resolve (ScriptDataMultisig getHash pubkeyHash) MULTISIG so state1 of (o2, state2) \<Rightarrow>
         scriptNum o1 = scriptIndexes state MULTISIG \<and> isNew o1 = True
         \<and> scriptNum o2 = scriptNum o1 + 1 \<and> scriptNum o2 \<noteq> scriptNum o1 \<and> isNew o2 = True
         \<and> map data (addresses (data o1)) = map data members
         \<and> map isNew (addresses (data o1))
             = map (\<lambda>i. key (members ! i) \<notin> dom (addressMap state) \<union> key ` set (take i members))
                 [0..<length members]
         \<and> map (\<lambda>a. addressMap state1 (key a)) members
             = map (\<lambda>a. Some (scriptNum a)) (addresses (data o1))
         \<and> addressMap state \<subseteq>\<^sub>m addressMap state1
         \<and> dom (addressMap state1) = dom (addressMap state) \<union> key ` set members
         \<and> map scriptNum (filter isNew (addresses (data o1)))
             = map (\<lambda>j. scriptIndexes state PUBKEY + of_nat j)
                 [0..<length (filter isNew (addresses (data o1)))]
         \<and> scriptIndexes state1
             = (scriptIndexes state)
                 (MULTISIG := scriptIndexes state MULTISIG + 1,
                  PUBKEY := scriptIndexes state PUBKEY
                            + of_nat (length (filter isNew (addresses (data o1)))))
         \<and> map scriptNum (addresses (data o2)) = map scriptNum (addresses (data o1))
         \<and> map isNew (addresses (data o2)) = map (\<lambda>a. False) members
         \<and> addressMap state2 = addressMap state1)"
proof -
  let ?B = "ScriptDataBase pubkeyHash"
  let ?M = "ScriptDataMultisig getHash pubkeyHash"
  let ?members = "addresses (data so)"
  let ?n = "scriptIndexes state MULTISIG"
  let ?s0 = "state\<lparr>scriptIndexes := (scriptIndexes state)(MULTISIG := ?n + 1)\<rparr>"
  have g: "getNewAddressIndex state MULTISIG = (?n, ?s0)"
    by (simp add: getNewAddressIndex_def)
  obtain outs s1 where a1: "resolveAll ?B PUBKEY ?members ?s0 = (outs, s1)"
    by (cases "resolveAll ?B PUBKEY ?members ?s0")
  note ra = resolveAll_pubkey [OF a1]
  have m0: "addressMap ?s0 = addressMap state" and i0: "scriptIndexes ?s0 PUBKEY = scriptIndexes state PUBKEY"
    by simp_all
  have c1: "map data outs = map data ?members" using ra by blast
  have c2: "map isNew outs
      = map (\<lambda>i. \<lparr>rawHash = pubkeyHash (data (?members ! i)), rawType = PUBKEY\<rparr>
                  \<notin> dom (addressMap state)
                    \<union> (\<lambda>a. \<lparr>rawHash = pubkeyHash (data a), rawType = PUBKEY\<rparr>) ` set (take i ?members))
          [0..<length ?members]"
    using ra unfolding m0 by blast
  have c3: "map (\<lambda>a. addressMap s1 \<lparr>rawHash = pubkeyHash (data a), rawType = PUBKEY\<rparr>) ?members
      = map (\<lambda>a. Some (scriptNum a)) outs"
    using ra by blast
  have c4: "addressMap state \<subseteq>\<^sub>m addressMap s1" using ra unfolding m0 by blast
  have c5: "dom (addressMap s1)
      = dom (addressMap state) \<union> (\<lambda>a. \<lparr>rawHash = pubkeyHash (data a), rawType = PUBKEY\<rparr>) ` set ?members"
    using ra unfolding m0 by blast
  have c6: "map scriptNum (filter isNew outs)
      = map (\<lambda>j. scriptIndexes state PUBKEY + of_nat j) [0..<length (filter isNew outs)]"
    using ra unfolding i0 by blast
  have c7: "scriptIndexes s1
      = (scriptIndexes ?s0)(PUBKEY := scriptIndexes state PUBKEY + of_nat (length (filter isNew outs)))"
    using ra unfolding i0 by blast
  have c7': "scriptIndexes s1
      = (scriptIndexes state)
          (MULTISIG := ?n + 1,
           PUBKEY := scriptIndexes state PUBKEY + of_nat (length (filter isNew outs)))"
    by (simp add: c7)
  have n1: "scriptIndexes s1 MULTISIG = ?n + 1" by (simp add: c7')
  obtain m s1' where g2: "getNewAddressIndex s1 MULTISIG = (m, s1')"
    by (cases "getNewAddressIndex s1 MULTISIG")
  have m: "m = ?n + 1" and am: "addressMap s1' = addressMap s1"
    using g2 n1 by (auto simp: getNewAddressIndex_def)
  have keys: "map (\<lambda>a. addressMap s1' \<lparr>rawHash = pubkeyHash (data a), rawType = PUBKEY\<rparr>) ?members
      = map Some (map scriptNum outs)"
    using c3 by (simp add: am comp_def)
  note sec = resolveAll_second [OF keys]
  have len: "length ?members = length (map scriptNum outs)"
    using c1 by (metis length_map)
  have r1: "resolve ?M MULTISIG so state
      = (\<lparr>data = (data so)\<lparr>addresses := outs\<rparr>, scriptNum = ?n, isNew = True\<rparr>, s1)"
    by (simp add: resolve_def resolveNum_def scriptType_def g a1 ScriptDataMultisig_def multisigResolve_def)
  have r2: "resolve ?M MULTISIG so s1
      = (\<lparr>data = (data so)\<lparr>addresses := map (\<lambda>(a, n). \<lparr>data = data a, scriptNum = n, isNew = False\<rparr>)
            (zip ?members (map scriptNum outs))\<rparr>, scriptNum = m, isNew = True\<rparr>, s1')"
    by (simp add: resolve_def resolveNum_def scriptType_def g2 sec ScriptDataMultisig_def multisigResolve_def)
  note z1 = zip_found_scriptNum [OF len]
  note z2 = zip_found_isNew [OF len]
  show ?thesis
    unfolding Let_def
    using c1 c2 c3 c4 c5 c6 c7' z1 z2
    by (simp add: r1 r2 m am del: map_map)
qed


section \<open>Multisig validity\<close>

text \<open>
  C9. The multisig validity predicate is true exactly when \<open>numRequired \<le> numTotal\<close> and
  \<open>numTotal\<close> equals the collected member count \<open>addressCount\<close>. A payload with
  \<open>numRequired = 3\<close>, \<open>numTotal = 2\<close> is invalid, one with \<open>numTotal = 2\<close> and one collected
  member is invalid, and one with \<open>numRequired = 2\<close>, \<open>numTotal = 3\<close> and three collected
  members is valid.
\<close>

theorem multisig_isValid_iff:
  "(isValid d = (unat (numRequired d) \<le> unat (numTotal d) \<and> unat (numTotal d) = unat (addressCount d)))
   \<and> isValid \<lparr>numRequired = 3, numTotal = 2, addressCount = 2, addresses = [a, b]\<rparr> = False
   \<and> isValid \<lparr>numRequired = 1, numTotal = 2, addressCount = 1, addresses = [a]\<rparr> = False
   \<and> isValid \<lparr>numRequired = 2, numTotal = 3, addressCount = 3, addresses = [a, b, c]\<rparr> = True"
  by (simp add: isValid_def)


section \<open>Segmentation: what a returning run guarantees\<close>

lemma lower_bound_ge: "firstIt \<le> lower_bound xs firstIt lastIt v"
  by (simp add: lower_bound_def)

lemma lower_bound_le: "firstIt \<le> lastIt \<Longrightarrow> lower_bound xs firstIt lastIt v \<le> lastIt"
proof -
  assume le: "firstIt \<le> lastIt"
  have "length (takeWhile (\<lambda>x. double_of_nat x < v) (take (lastIt - firstIt) (drop firstIt xs)))
        \<le> length (take (lastIt - firstIt) (drop firstIt xs))"
    by (rule length_takeWhile_le)
  also have "\<dots> \<le> lastIt - firstIt" by simp
  finally show ?thesis using le by (simp add: lower_bound_def)
qed

lemma take_drop_split:
  "a \<le> b \<Longrightarrow> b \<le> c \<Longrightarrow> take (b - a) (drop a xs) @ take (c - b) (drop b xs) = take (c - a) (drop a xs)"
proof -
  assume ab: "a \<le> b" and bc: "b \<le> c"
  have "take (c - a) (drop a xs) = take ((b - a) + (c - b)) (drop a xs)"
    using ab bc by simp
  also have "\<dots> = take (b - a) (drop a xs) @ take (c - b) (drop (b - a) (drop a xs))"
    by (rule take_add)
  finally show ?thesis using ab by simp
qed

lemma loop_post_step:
  assumes b1: "it \<le> it1" and b2: "it1 \<le> endBlock"
    and ih: "loop_post chain txIndexes lastTx segmentSize endBlock it1
               (segments @ [take (it1 - it) (drop it chain)]) r"
  shows "loop_post chain txIndexes lastTx segmentSize endBlock it segments r"
proof (cases r)
  case (Inl e)
  with ih show ?thesis by (simp add: loop_post_def)
next
  case (Inr p)
  obtain it' segments' where p: "p = (it', segments')" by (cases p)
  from ih Inr p have h: "it1 \<le> it'" "it' \<le> endBlock" "it' < length txIndexes"
    "\<not> segmentSize < double_of_nat (u32_sub lastTx (txIndexes ! it'))"
    "concat segments' = concat segments @ take (it1 - it) (drop it chain)
            @ take (it' - it1) (drop it1 chain)"
    "length segments < length segments'"
    by (auto simp: loop_post_def)
  have "take (it1 - it) (drop it chain) @ take (it' - it1) (drop it1 chain)
        = take (it' - it) (drop it chain)"
    using b1 h(1) by (rule take_drop_split)
  with h b1 show ?thesis by (simp add: Inr p loop_post_def)
qed

lemma segmentLoop_partition:
  assumes "segmentLoop chain txIndexes lastTx segmentSize endBlock it segments = Some r"
  shows "it \<le> endBlock \<longrightarrow> loop_post chain txIndexes lastTx segmentSize endBlock it segments r"
proof (rule segmentLoop.raw_induct [where P = "\<lambda>chain txIndexes lastTx segmentSize endBlock it segments r.
      it \<le> endBlock \<longrightarrow> loop_post chain txIndexes lastTx segmentSize endBlock it segments r", OF _ assms])
  fix loop chain txIndexes lastTx segmentSize endBlock it segments r
  assume IH: "\<And>chain txIndexes lastTx segmentSize endBlock it segments r.
      loop chain txIndexes lastTx segmentSize endBlock it segments = Some r \<Longrightarrow>
      it \<le> endBlock \<longrightarrow> loop_post chain txIndexes lastTx segmentSize endBlock it segments r"
  assume body: "(if length txIndexes \<le> it then Some (Inl OutOfBounds)
      else if segmentSize < double_of_nat (u32_sub lastTx (txIndexes ! it)) then
        (if endBlock < it \<or> length txIndexes < endBlock then Some (Inl OutOfBounds)
         else
           (let segmentStart = it;
                breakPoint = double_add (double_of_nat (txIndexes ! it)) segmentSize;
                it' = lower_bound txIndexes it endBlock breakPoint;
                segmentEnd = it'
            in loop chain txIndexes lastTx segmentSize endBlock it'
                 (segments @ [take (segmentEnd - segmentStart) (drop segmentStart chain)])))
      else Some (Inr (it, segments))) = Some r"
  let ?it' = "lower_bound txIndexes it endBlock (double_add (double_of_nat (txIndexes ! it)) segmentSize)"
  show "it \<le> endBlock \<longrightarrow> loop_post chain txIndexes lastTx segmentSize endBlock it segments r"
  proof
    assume le: "it \<le> endBlock"
    show "loop_post chain txIndexes lastTx segmentSize endBlock it segments r"
    proof (cases "length txIndexes \<le> it")
      case True
      with body have "r = Inl OutOfBounds" by simp
      with True le show ?thesis by (simp add: loop_post_def)
    next
      case inb: False
      show ?thesis
      proof (cases "segmentSize < double_of_nat (u32_sub lastTx (txIndexes ! it))")
        case False
        with inb body have "r = Inr (it, segments)" by simp
        with inb False le show ?thesis by (simp add: loop_post_def)
      next
        case True
        show ?thesis
        proof (cases "endBlock < it \<or> length txIndexes < endBlock")
          case True
          with inb \<open>segmentSize < _\<close> body have "r = Inl OutOfBounds" by simp
          with True le show ?thesis by (auto simp: loop_post_def)
        next
          case False
          with inb True body
          have rec: "loop chain txIndexes lastTx segmentSize endBlock ?it'
                       (segments @ [take (?it' - it) (drop it chain)]) = Some r"
            by (simp add: Let_def)
          have b1: "it \<le> ?it'" by (rule lower_bound_ge)
          have b2: "?it' \<le> endBlock" using le by (rule lower_bound_le)
          from IH [OF rec] b2
          have "loop_post chain txIndexes lastTx segmentSize endBlock ?it'
                       (segments @ [take (?it' - it) (drop it chain)]) r"
            by simp
          with b1 b2 show ?thesis by (rule loop_post_step)
        qed
      qed
    qed
  qed
qed


lemma uint32_modulus_pos [simp]: "0 < uint32_modulus"
  by (simp add: uint32_modulus_def)

lemma valid_from_nth:
  "valid_from h f bs \<Longrightarrow> i < length bs \<Longrightarrow>
   firstTxIndex (bs ! i) = f + sum_list (map blockSize (take i bs)) \<and> height (bs ! i) = h + i"
proof (induction bs arbitrary: h f i)
  case Nil
  then show ?case by simp
next
  case (Cons b bs)
  show ?case
  proof (cases i)
    case 0
    with Cons.prems show ?thesis by simp
  next
    case (Suc j)
    with Cons.prems have "valid_from (h + 1) (f + blockSize b) bs" and "j < length bs" by auto
    from Cons.IH [OF this] Cons.prems Suc show ?thesis by simp
  qed
qed

lemma valid_from_total: "valid_from h f bs \<Longrightarrow> f + sum_list (map blockSize bs) < uint32_modulus"
proof (induction bs arbitrary: h f)
  case Nil
  then show ?case by simp
next
  case (Cons b bs)
  then have "valid_from (h + 1) (f + blockSize b) bs" by simp
  from Cons.IH [OF this] show ?case by (simp add: add.assoc)
qed

lemma sum_take_le: "sum_list (map blockSize (take i bs)) \<le> sum_list (map blockSize bs)"
proof -
  have "sum_list (map blockSize bs) = sum_list (map blockSize (take i bs @ drop i bs))" by simp
  also have "\<dots> = sum_list (map blockSize (take i bs)) + sum_list (map blockSize (drop i bs))"
    by (simp del: append_take_drop_id)
  finally show ?thesis by simp
qed

lemma sum_take_Suc:
  "i < length bs \<Longrightarrow>
   sum_list (map blockSize (take (Suc i) bs)) = sum_list (map blockSize (take i bs)) + blockSize (bs ! i)"
  by (simp add: take_Suc_conv_app_nth)

lemma sum_range:
  assumes "s \<le> e"
  shows "sum_list (map blockSize (take (e - s) (drop s bs)))
         = sum_list (map blockSize (take e bs)) - sum_list (map blockSize (take s bs))"
proof -
  have "take e bs = take s bs @ take (e - s) (drop s bs)"
    using assms by (metis le_add_diff_inverse take_add)
  then have "sum_list (map blockSize (take e bs))
      = sum_list (map blockSize (take s bs)) + sum_list (map blockSize (take (e - s) (drop s bs)))"
    by simp
  then show ?thesis by simp
qed

lemma foldl_u32_add:
  "c < uint32_modulus \<Longrightarrow> foldl (\<lambda>count x. u32_add count (g x)) c xs = (c + sum_list (map g xs)) mod uint32_modulus"
proof (induction xs arbitrary: c)
  case Nil
  then show ?case by simp
next
  case (Cons x xs)
  have "u32_add c (g x) < uint32_modulus" by (simp add: u32_add_def)
  from Cons.IH [OF this] show ?case
    by (simp add: u32_add_def mod_add_left_eq add.assoc)
qed

lemma segmentTxCount_eq: "segmentTxCount segment = sum_list (map blockSize segment) mod uint32_modulus"
  by (simp add: segmentTxCount_def foldl_u32_add)

lemma totalCount_eq:
  "foldl (\<lambda>total segment. u32_add total (segmentTxCount segment)) 0 segments
   = sum_list (map blockSize (concat segments)) mod uint32_modulus"
proof -
  have "sum_list (map segmentTxCount segments) mod uint32_modulus
        = sum_list (map blockSize (concat segments)) mod uint32_modulus"
  proof (induction segments)
    case Nil
    show ?case by simp
  next
    case (Cons s ss)
    have "(segmentTxCount s + sum_list (map segmentTxCount ss)) mod uint32_modulus
        = (sum_list (map blockSize s) mod uint32_modulus + sum_list (map segmentTxCount ss) mod uint32_modulus) mod uint32_modulus"
      by (simp add: segmentTxCount_eq mod_add_right_eq)
    also have "\<dots> = (sum_list (map blockSize s) mod uint32_modulus + sum_list (map blockSize (concat ss)) mod uint32_modulus) mod uint32_modulus"
      by (simp only: Cons.IH)
    also have "\<dots> = (sum_list (map blockSize s) + sum_list (map blockSize (concat ss))) mod uint32_modulus"
      by (rule mod_add_eq)
    finally show ?case by simp
  qed
  then show ?thesis by (simp add: foldl_u32_add)
qed


lemma wrap_sub_exact:
  fixes a b m :: nat
  assumes le: "b \<le> a" and lt: "a < m"
  shows "(a + m - b mod m) mod m = a - b"
proof -
  have bm: "b < m" using le lt by (rule le_less_trans)
  have "(a + m - b mod m) mod m = (a + m - b) mod m"
    by (simp only: mod_less [OF bm])
  also have "a + m - b = (a - b) + m"
    using le by (rule Nat.diff_add_assoc2)
  also have "((a - b) + m) mod m = (a - b) mod m"
    by (rule mod_add_self2)
  also have "\<dots> = a - b"
    by (rule mod_less) (rule less_imp_diff_less [OF lt])
  finally show ?thesis .
qed

lemma u32_sub_exact: "b \<le> a \<Longrightarrow> a < uint32_modulus \<Longrightarrow> u32_sub a b = a - b"
  unfolding u32_sub_def by (rule wrap_sub_exact)

lemma range_total:
  assumes v: "valid_chain chain" and se: "s < e" and el: "e \<le> length chain"
  shows "firstTxIndex (chain ! s) = sum_list (map blockSize (take s chain))"
    and "endTxIndex (chain ! (e - 1)) = sum_list (map blockSize (take e chain))"
    and "u32_sub (endTxIndex (chain ! (e - 1))) (firstTxIndex (chain ! s))
         = sum_list (map blockSize (take (e - s) (drop s chain)))"
    and "sum_list (map blockSize (take (e - s) (drop s chain))) < uint32_modulus"
proof -
  from v have vf: "valid_from 0 0 chain" by (simp add: valid_chain_def)
  have tot: "sum_list (map blockSize chain) < uint32_modulus"
    using valid_from_total [OF vf] by simp
  have le_e: "sum_list (map blockSize (take e chain)) < uint32_modulus"
    using sum_take_le [of e chain] tot by simp
  have le_s: "sum_list (map blockSize (take s chain)) \<le> sum_list (map blockSize (take e chain))"
  proof -
    have "take s chain = take s (take e chain)" using se by (simp add: min_def)
    then show ?thesis using sum_take_le [of s "take e chain"] by simp
  qed
  show f: "firstTxIndex (chain ! s) = sum_list (map blockSize (take s chain))"
    using valid_from_nth [OF vf, of s] se el by simp
  have e1: "e - 1 < length chain" using se el by simp
  have "firstTxIndex (chain ! (e - 1)) = sum_list (map blockSize (take (e - 1) chain))"
    using valid_from_nth [OF vf e1] by simp
  then have "firstTxIndex (chain ! (e - 1)) + blockSize (chain ! (e - 1))
      = sum_list (map blockSize (take e chain))"
    using sum_take_Suc [OF e1] se by simp
  then show l: "endTxIndex (chain ! (e - 1)) = sum_list (map blockSize (take e chain))"
    using le_e by (simp add: endTxIndex_def u32_add_def)
  have r: "sum_list (map blockSize (take (e - s) (drop s chain)))
      = sum_list (map blockSize (take e chain)) - sum_list (map blockSize (take s chain))"
    using se by (simp add: sum_range)
  show "sum_list (map blockSize (take (e - s) (drop s chain))) < uint32_modulus"
    using r le_e by simp
  have "sum_list (map blockSize (take s chain)) < uint32_modulus" using le_s le_e by simp
  then show "u32_sub (endTxIndex (chain ! (e - 1))) (firstTxIndex (chain ! s))
         = sum_list (map blockSize (take (e - s) (drop s chain)))"
    using u32_sub_exact [OF le_s le_e] by (simp only: f l r)
qed

lemma concat_merge_last:
  "segments \<noteq> [] \<Longrightarrow> concat (butlast segments @ [last segments @ r]) = concat segments @ r"
proof -
  assume "segments \<noteq> []"
  then have "segments = butlast segments @ [last segments]" by simp
  then have "concat segments = concat (butlast segments) @ last segments"
    by (metis concat.simps(1) concat.simps(2) concat_append append_Nil2)
  then show ?thesis by simp
qed

lemma sum_segmentTxCount:
  "sum_list (map blockSize (concat segments)) < uint32_modulus \<Longrightarrow>
   sum_list (map segmentTxCount segments) = sum_list (map blockSize (concat segments))"
proof (induction segments)
  case Nil
  show ?case by simp
next
  case (Cons s ss)
  from Cons.prems have b: "sum_list (map blockSize s) + sum_list (map blockSize (concat ss)) < uint32_modulus"
    by simp
  then have b1: "sum_list (map blockSize s) < uint32_modulus"
    and b2: "sum_list (map blockSize (concat ss)) < uint32_modulus"
    by linarith+
  have "segmentTxCount s = sum_list (map blockSize s)"
    using b1 by (simp add: segmentTxCount_eq)
  moreover have "sum_list (map segmentTxCount ss) = sum_list (map blockSize (concat ss))"
    using b2 by (rule Cons.IH)
  ultimately show ?case by simp
qed

theorem segmentChain_sound:
  assumes v: "valid_chain chain"
    and s0: "0 \<le> startBlock" and se: "startBlock < endBlock" and el: "endBlock \<le> int (length chain)"
    and run: "segmentChain chain startBlock endBlock segmentCount = Some r"
  shows "case r of
           Inl e \<Rightarrow> e = OutOfBounds \<and> (segmentCount = 0 \<or> endBlock = int (length chain))
         | Inr segments \<Rightarrow>
             segments \<noteq> []
             \<and> concat segments = take (nat endBlock - nat startBlock) (drop (nat startBlock) chain)
             \<and> sum_list (map segmentTxCount segments)
                 = endTxIndex (chain ! nat (endBlock - 1)) - firstTxIndex (chain ! nat startBlock)"
proof -
  let ?s = "nat startBlock" and ?e = "nat endBlock"
  have se': "?s < ?e" and el': "?e \<le> length chain" using s0 se el by auto
  have idx: "?e - 1 = nat (endBlock - 1)" using s0 se by simp
  note rt = range_total [OF v se' el', unfolded idx]
  have a1: "chainAt chain startBlock = Inr (chain ! ?s)"
    using s0 se el by (simp add: chainAt_def)
  have a2: "chainAt chain (endBlock - 1) = Inr (chain ! nat (endBlock - 1))"
    using s0 se el by (simp add: chainAt_def)
  let ?lastTx = "endTxIndex (chain ! nat (endBlock - 1))"
  let ?total = "u32_sub ?lastTx (firstTxIndex (chain ! ?s))"
  let ?S = "double_div (double_of_nat ?total) (double_of_nat segmentCount)"
  let ?range = "take (?e - ?s) (drop ?s chain)"
  show ?thesis
  proof (cases "segmentCount = 0")
    case True
    have "segmentChain chain startBlock endBlock segmentCount = Some (Inl OutOfBounds)"
      unfolding segmentChain_def Let_def by (simp only: a1 a2 sum.case True refl if_True)
    with run have "r = Inl OutOfBounds" by simp
    with True show ?thesis by simp
  next
    case k: False
    show ?thesis
    proof (cases "segmentLoop chain (map firstTxIndex chain) ?lastTx ?S ?e ?s []")
      case None
      have "segmentChain chain startBlock endBlock segmentCount = None"
        unfolding segmentChain_def Let_def by (simp only: a1 a2 sum.case k if_False None option.case)
      with run show ?thesis by simp
    next
      case (Some lr)
      have post: "loop_post chain (map firstTxIndex chain) ?lastTx ?S ?e ?s [] lr"
        using segmentLoop_partition [OF Some] se' by simp
      show ?thesis
      proof (cases lr)
        case (Inl e)
        have "segmentChain chain startBlock endBlock segmentCount = Some (Inl e)"
          unfolding segmentChain_def Let_def
          by (simp only: a1 a2 sum.case k if_False Some Inl option.case)
        with run have "r = Inl e" by simp
        with post Inl have "e = OutOfBounds" and "length chain \<le> ?e" by (simp_all add: loop_post_def)
        moreover from this el s0 se have "endBlock = int (length chain)" by linarith
        ultimately show ?thesis using \<open>r = Inl e\<close> by simp
      next
        case (Inr p)
        obtain it segments where p: "p = (it, segments)" by (cases p)
        from post Inr p have h: "?s \<le> it" "it \<le> ?e"
          "concat segments = take (it - ?s) (drop ?s chain)"
          by (auto simp: loop_post_def)
        let ?rem = "take (?e - it) (drop it chain)"
        let ?segs = "if length segments = segmentCount
                        then butlast segments @ [last segments @ ?rem]
                        else segments @ [?rem]"
        have ne: "length segments = segmentCount \<Longrightarrow> segments \<noteq> []" using k by auto
        have "concat ?segs = concat segments @ ?rem"
        proof (cases "length segments = segmentCount")
          case True
          then have "?segs = butlast segments @ [last segments @ ?rem]" by simp
          then show ?thesis using concat_merge_last [OF ne [OF True]] by (simp only:)
        next
          case False
          then show ?thesis by simp
        qed
        also have "\<dots> = take (it - ?s) (drop ?s chain) @ ?rem" by (simp only: h(3))
        also have "\<dots> = ?range" using h(1) h(2) by (rule take_drop_split)
        finally have cc: "concat ?segs = ?range" .
        have ne': "?segs \<noteq> []" by simp
        have tc: "foldl (\<lambda>total segment. u32_add total (segmentTxCount segment)) 0 ?segs = ?total"
          using rt(4) by (simp only: totalCount_eq cc rt(3)) simp
        have "segmentChain chain startBlock endBlock segmentCount = Some (Inr ?segs)"
          unfolding segmentChain_def Let_def
          by (simp only: a1 a2 sum.case k if_False Some Inr p option.case prod.case tc refl if_True)
        with run have r: "r = Inr ?segs" by simp
        have "sum_list (map segmentTxCount ?segs) = sum_list (map blockSize (concat ?segs))"
          by (rule sum_segmentTxCount) (simp only: cc rt(4))
        also have "\<dots> = ?lastTx - firstTxIndex (chain ! ?s)"
          by (simp only: cc rt(1) rt(2) sum_range [OF less_imp_le [OF se']])
        finally have sm: "sum_list (map segmentTxCount ?segs) = ?lastTx - firstTxIndex (chain ! ?s)" .
        have "?segs \<noteq> [] \<and> concat ?segs = ?range
            \<and> sum_list (map segmentTxCount ?segs) = ?lastTx - firstTxIndex (chain ! ?s)"
          using ne' cc sm by (intro conjI)
        then show ?thesis by (simp only: r sum.case simp_thms)
      qed
    qed
  qed
qed


lemma foldl_push_if:
  "foldl (\<lambda>txes tx. if testFunc tx then txes @ [tx] else txes) acc xs = acc @ filter testFunc xs"
  by (induction xs arbitrary: acc) simp_all

lemma foldl_blocks:
  "foldl (\<lambda>txes block.
            foldl (\<lambda>txes tx. if testFunc tx then txes @ [tx] else txes) txes (blockTxes block))
     acc segment
   = acc @ filter testFunc (concat (map blockTxes segment))"
  by (induction segment arbitrary: acc) (simp_all add: foldl_push_if)

lemma foldl_append_concat: "foldl (\<lambda>vec1 vec2. vec1 @ vec2) acc xs = acc @ concat xs"
  by (induction xs arbitrary: acc) simp_all

lemma concat_filter_segments:
  "concat (map (\<lambda>segment. filter testFunc (concat (map blockTxes segment))) segments)
   = filter testFunc (concat (map blockTxes (concat segments)))"
  by (induction segments) simp_all

theorem filter_Transaction_sound:
  assumes v: "valid_chain chain"
    and s0: "0 \<le> startBlock" and se: "startBlock < endBlock" and el: "endBlock \<le> int (length chain)"
    and run: "filter_Transaction segmentCount chain startBlock endBlock testFunc = Some (Inr txes)"
  shows "txes = filter testFunc
                  (concat (map blockTxes (take (nat endBlock - nat startBlock) (drop (nat startBlock) chain))))"
proof -
  let ?mapFunc = "\<lambda>segment.
            foldl (\<lambda>txes block.
                     foldl (\<lambda>txes tx. if testFunc tx then txes @ [tx] else txes) txes (blockTxes block))
              [] segment"
  from run obtain segments where
    sc: "segmentChain chain startBlock endBlock segmentCount = Some (Inr segments)"
    and tx: "txes = foldl (\<lambda>vec1 vec2. vec1 @ vec2) [] (map ?mapFunc segments)"
    by (auto simp: filter_Transaction_def mapReduce_def Let_def split: option.splits sum.splits)
  from segmentChain_sound [OF v s0 se el sc]
  have cc: "concat segments = take (nat endBlock - nat startBlock) (drop (nat startBlock) chain)"
    by simp
  have "txes = concat (map (\<lambda>segment. filter testFunc (concat (map blockTxes segment))) segments)"
    by (simp only: tx foldl_append_concat foldl_blocks append_Nil)
  then show ?thesis by (simp only: concat_filter_segments cc)
qed



section \<open>Segmentation: concrete chains\<close>

text \<open>
  The rounded values that the runs below need. The first is the binary64 value of one
  tenth, \<^verbatim>\<open>0x3FB999999999999A\<close>, as a check of the rounding.
\<close>

lemma round_double_one_tenth: "round_double (1 / 10) = 3602879701896397 / 36028797018963968"
  by code_simp

lemma round_double_10: "round_double 10 = 10"
  by code_simp

lemma round_double_20_3: "round_double (20 / 3) = 7505999378950827 / 1125899906842624"
  by code_simp

lemma round_double_10_plus:
  "round_double (18764998447377067 / 1125899906842624) = 4691249611844267 / 281474976710656"
  by code_simp

lemma round_double_fix:
  "round_double (7505999378950827 / 1125899906842624) = 7505999378950827 / 1125899906842624"
  by code_simp

lemma round_double_101_2: "round_double (101 / 2) = 101 / 2"
  by code_simp

lemma round_double_3_8: "round_double (3 / 8) = 3 / 8"
  by code_simp

lemma round_double_11_8: "round_double (11 / 8) = 11 / 8"
  by code_simp

lemma round_double_19_8: "round_double (19 / 8) = 19 / 8"
  by code_simp

lemma round_double_5_2: "round_double (5 / 2) = 5 / 2"
  by code_simp


lemmas segment_eval = double_of_nat_def double_add_def double_div_def u32_sub_def u32_add_def
  uint32_modulus_def lower_bound_def chainAt_def endTxIndex_def segmentTxCount_def Let_def

text \<open>
  C7. On the chain of 4 blocks with 5 transactions each (first indexes 0, 5, 10, 15, total
  20), \<open>segmentChain\<close> with \<open>startBlock = 0\<close>, \<open>endBlock = 4\<close>, \<open>segmentCount = 2\<close> returns
  exactly two segments, the blocks \<open>[0, 2)\<close> and the blocks \<open>[2, 4)\<close>, of 10 transactions each.
\<close>

theorem segmentChain_four_blocks_two_segments: "segmentChain
     [\<lparr>height = 0, firstTxIndex = 0, blockSize = 5\<rparr>, \<lparr>height = 1, firstTxIndex = 5, blockSize = 5\<rparr>,
      \<lparr>height = 2, firstTxIndex = 10, blockSize = 5\<rparr>, \<lparr>height = 3, firstTxIndex = 15, blockSize = 5\<rparr>] 0 4 2
   = Some (Inr [[\<lparr>height = 0, firstTxIndex = 0, blockSize = 5\<rparr>, \<lparr>height = 1, firstTxIndex = 5, blockSize = 5\<rparr>],
 [\<lparr>height = 2, firstTxIndex = 10, blockSize = 5\<rparr>, \<lparr>height = 3, firstTxIndex = 15, blockSize = 5\<rparr>]])
  \<and> map segmentTxCount [[\<lparr>height = 0, firstTxIndex = 0, blockSize = 5\<rparr>, \<lparr>height = 1, firstTxIndex = 5, blockSize = 5\<rparr>],
 [\<lparr>height = 2, firstTxIndex = 10, blockSize = 5\<rparr>, \<lparr>height = 3, firstTxIndex = 15, blockSize = 5\<rparr>]] = [10, 10]"
  unfolding segmentChain_def
  apply (simp add: segment_eval round_double_10)
  apply (subst segmentLoop.simps)
  apply (simp add: segment_eval round_double_10)
  apply (subst segmentLoop.simps)
  apply (simp add: segment_eval round_double_10)
  done

text \<open>
  C6. Every read of the boundary array \<^verbatim>\<open>txIndexes\<close> should be in bounds. It is not: on the
  chain of two blocks with 1 and 100 transactions, range \<open>[0, 2)\<close> and \<open>segmentCount = 2\<close>,
  the lower-bound search returns the end of the array and the loop condition dereferences
  it.
\<close>

theorem segmentChain_reads_past_end: "segmentChain
     [\<lparr>height = 0, firstTxIndex = 0, blockSize = 1\<rparr>, \<lparr>height = 1, firstTxIndex = 1, blockSize = 100\<rparr>] 0 2 2
   = Some (Inl OutOfBounds)"
  unfolding segmentChain_def
  apply (simp add: segment_eval round_double_101_2)
  apply (subst segmentLoop.simps)
  apply (simp add: segment_eval round_double_101_2)
  apply (subst segmentLoop.simps)
  apply (simp add: segment_eval round_double_101_2)
  done

text \<open>
  C4. The per-segment transaction counts of the returned segments should sum to the total
  of the range for every valid input. On the 4 blocks of 5 transactions with
  \<open>segmentCount = 3\<close> no segments are returned: the second search ends at the end of the
  array, which the loop condition then reads.
\<close>

theorem segmentChain_three_segments_out_of_bounds: "segmentChain
     [\<lparr>height = 0, firstTxIndex = 0, blockSize = 5\<rparr>, \<lparr>height = 1, firstTxIndex = 5, blockSize = 5\<rparr>,
      \<lparr>height = 2, firstTxIndex = 10, blockSize = 5\<rparr>, \<lparr>height = 3, firstTxIndex = 15, blockSize = 5\<rparr>] 0 4 3
   = Some (Inl OutOfBounds)"
  unfolding segmentChain_def
  apply (simp add: segment_eval round_double_20_3)
  apply (subst segmentLoop.simps)
  apply (simp add: segment_eval round_double_fix)
  apply (subst segmentLoop.simps)
  apply (simp add: segment_eval round_double_10_plus)
  apply (subst segmentLoop.simps)
  apply (simp add: segment_eval)
  done

text \<open>
  C5. The returned segments should partition the range, at most \<open>segmentCount\<close> of them, for
  every valid input. On 3 blocks of 1 transaction with \<open>segmentCount = 8\<close> no segments are
  returned: the third search ends at the end of the array, which the loop condition then
  reads.
\<close>

theorem segmentChain_eight_segments_out_of_bounds: "segmentChain
     [\<lparr>height = 0, firstTxIndex = 0, blockSize = 1\<rparr>, \<lparr>height = 1, firstTxIndex = 1, blockSize = 1\<rparr>,
      \<lparr>height = 2, firstTxIndex = 2, blockSize = 1\<rparr>] 0 3 8
   = Some (Inl OutOfBounds)"
  unfolding segmentChain_def
  apply (simp add: segment_eval round_double_3_8)
  apply (subst segmentLoop.simps)
  apply (simp add: segment_eval round_double_3_8)
  apply (subst segmentLoop.simps)
  apply (simp add: segment_eval round_double_11_8)
  apply (subst segmentLoop.simps)
  apply (simp add: segment_eval round_double_19_8)
  apply (subst segmentLoop.simps)
  apply (simp add: segment_eval)
  done

text \<open>
  C8. \<^verbatim>\<open>filter\<close> over the full range should return the transactions that satisfy the
  predicate, in chain order. On the chain of two blocks with 2 and 3 transactions, split
  in 2 segments, it returns nothing: the segmentation reads past the end of the boundary
  array.
\<close>

theorem filter_Transaction_out_of_bounds: "filter_Transaction 2
     [\<lparr>height = 0, firstTxIndex = 0, blockSize = 2\<rparr>, \<lparr>height = 1, firstTxIndex = 2, blockSize = 3\<rparr>] 0 2 (\<lambda>tx. True)
   = Some (Inl OutOfBounds)"
  unfolding filter_Transaction_def mapReduce_def segmentChain_def
  apply (simp add: segment_eval round_double_5_2)
  apply (subst segmentLoop.simps)
  apply (simp add: segment_eval round_double_5_2)
  apply (subst segmentLoop.simps)
  apply (simp add: segment_eval round_double_5_2)
  done

section \<open>Segmentation: a run that never returns\<close>

text \<open>
  The break point is the rounded sum \<^verbatim>\<open>*it + segmentSize\<close>. When \<^verbatim>\<open>segmentSize\<close> is less than
  half a unit in the last place of \<^verbatim>\<open>*it\<close> the sum is \<^verbatim>\<open>*it\<close> again, the search returns the
  position it started from, and the loop pushes empty segments forever. The range, one
  block of one transaction, lies inside the chain, so no read is out of bounds.
\<close>

lemma round_double_tiny: "round_double (1 / 67108864) = 1 / 67108864"
  by code_simp

lemma round_double_absorbed: "round_double (72057594037927937 / 67108864) = 1073741824"
  by code_simp

lemma segmentLoop_stalls:
  assumes "segmentLoop chain txIndexes lastTx segmentSize endBlock it segments = Some r"
  shows "stalled chain txIndexes lastTx segmentSize endBlock it segments r"
proof (rule segmentLoop.raw_induct [where P = stalled, OF _ assms])
  fix loop chain txIndexes lastTx segmentSize endBlock it segments r
  assume IH: "\<And>chain txIndexes lastTx segmentSize endBlock it segments r.
      loop chain txIndexes lastTx segmentSize endBlock it segments = Some r \<Longrightarrow>
      stalled chain txIndexes lastTx segmentSize endBlock it segments r"
  assume body: "(if length txIndexes \<le> it then Some (Inl OutOfBounds)
      else if segmentSize < double_of_nat (u32_sub lastTx (txIndexes ! it)) then
        (if endBlock < it \<or> length txIndexes < endBlock then Some (Inl OutOfBounds)
         else
           (let segmentStart = it;
                breakPoint = double_add (double_of_nat (txIndexes ! it)) segmentSize;
                it' = lower_bound txIndexes it endBlock breakPoint;
                segmentEnd = it'
            in loop chain txIndexes lastTx segmentSize endBlock it'
                 (segments @ [take (segmentEnd - segmentStart) (drop segmentStart chain)])))
      else Some (Inr (it, segments))) = Some r"
  show "stalled chain txIndexes lastTx segmentSize endBlock it segments r"
    unfolding stalled_def
  proof
    assume a: "txIndexes = [0, 1073741824, 1073741825] \<and> lastTx = 1073741825
         \<and> segmentSize = 1 / 67108864 \<and> endBlock = 2 \<and> it = 1"
    have lb: "lower_bound [0, 1073741824, 1073741825] 1 2
                (double_add (double_of_nat 1073741824) (1 / 67108864)) = 1"
      by (simp add: lower_bound_def double_add_def double_of_nat_def round_double_absorbed)
    have c: "(1 / 67108864 :: rat) < double_of_nat (u32_sub 1073741825 1073741824)"
      by (simp add: double_of_nat_def u32_sub_def uint32_modulus_def)
    from a have e: "txIndexes = [0, 1073741824, 1073741825]" "lastTx = 1073741825"
      "segmentSize = 1 / 67108864" "endBlock = 2" "it = 1"
      by blast+
    from body [unfolded e] c lb
    have "loop chain [0, 1073741824, 1073741825] 1073741825 (1 / 67108864) 2 1
            (segments @ [take 0 (drop 1 chain)]) = Some r"
      by (simp add: Let_def)
    from IH [OF this] show False by (simp add: stalled_def)
  qed
qed

theorem segmentChain_can_run_forever:
  "valid_chain [\<lparr>height = 0, firstTxIndex = 0, blockSize = 1073741824\<rparr>,
                \<lparr>height = 1, firstTxIndex = 1073741824, blockSize = 1\<rparr>,
                \<lparr>height = 2, firstTxIndex = 1073741825, blockSize = 1\<rparr>]
   \<and> segmentChain [\<lparr>height = 0, firstTxIndex = 0, blockSize = 1073741824\<rparr>,
                \<lparr>height = 1, firstTxIndex = 1073741824, blockSize = 1\<rparr>,
                \<lparr>height = 2, firstTxIndex = 1073741825, blockSize = 1\<rparr>] 1 2 67108864 = None"
proof -
  let ?chain = "[\<lparr>height = 0, firstTxIndex = 0, blockSize = 1073741824\<rparr>,
                \<lparr>height = 1, firstTxIndex = 1073741824, blockSize = 1\<rparr>,
                \<lparr>height = 2, firstTxIndex = 1073741825, blockSize = 1\<rparr>]"
  have "segmentLoop ?chain [0, 1073741824, 1073741825] 1073741825 (1 / 67108864) 2 1 [] = None"
  proof (cases "segmentLoop ?chain [0, 1073741824, 1073741825] 1073741825 (1 / 67108864) 2 1 []")
    case None
    then show ?thesis .
  next
    case (Some r)
    from segmentLoop_stalls [OF this] show ?thesis by (simp add: stalled_def)
  qed
  then have "segmentChain ?chain 1 2 67108864 = None"
    unfolding segmentChain_def
    by (simp add: segment_eval round_double_tiny)
  moreover have "valid_chain ?chain"
    by (simp add: valid_chain_def uint32_modulus_def)
  ultimately show ?thesis by simp
qed


end
